theory Spec2Isabelle
  imports Main
begin

section \<open>JavaScript values reaching the routing database\<close>

text \<open>
  The string-valued arguments of \<open>RoutingDatabase\<close> are JavaScript strings that may
  also be \<open>null\<close> or \<open>undefined\<close>. A column of a row read back from the table is
  a string or \<open>null\<close>, modelled as \<open>string option\<close>.
\<close>

datatype jstr = Null | Undefined | Str string

text \<open>JavaScript truthiness: \<open>null\<close>, \<open>undefined\<close> and the empty string are falsy.\<close>

fun truthy :: "jstr \<Rightarrow> bool" where
  "truthy Null = False"
| "truthy Undefined = False"
| "truthy (Str s) = (s \<noteq> [])"

fun column_truthy :: "string option \<Rightarrow> bool" where
  "column_truthy None = False"
| "column_truthy (Some s) = (s \<noteq> [])"

text \<open>What a template literal \<open>`${v}`\<close> interpolates.\<close>

fun template :: "jstr \<Rightarrow> string" where
  "template Null = ''null''"
| "template Undefined = ''undefined''"
| "template (Str s) = s"

text \<open>\<open>column === value\<close> between a column of a row and a request argument.\<close>

fun strict_eq :: "string option \<Rightarrow> jstr \<Rightarrow> bool" where
  "strict_eq None Null = True"
| "strict_eq (Some v) (Str s) = (v = s)"
| "strict_eq _ _ = False"

text \<open>The value bound to a statement parameter or read from a column, as a JavaScript value.\<close>

fun js_of :: "string option \<Rightarrow> jstr" where
  "js_of None = Null"
| "js_of (Some s) = Str s"

text \<open>\<open>s.startsWith(p)\<close> and \<open>arr.join(sep)\<close>.\<close>

definition startsWith :: "string \<Rightarrow> string \<Rightarrow> bool" where
  "startsWith s p = (take (length p) s = p)"

fun join :: "string \<Rightarrow> string list \<Rightarrow> string" where
  "join sep [] = []"
| "join sep [x] = x"
| "join sep (x # y # ys) = x @ sep @ join sep (y # ys)"

section \<open>The table \<open>routing_rules\<close>\<close>

text \<open>
  One row of the table. \<open>query_params\<close> holds \<open>null\<close> or the JSON text of an array of
  strings; the model keeps the array itself, since \<open>JSON.parse\<close> undoes
  \<open>JSON.stringify\<close> on such arrays. Timestamps are seconds as integers.
\<close>

record rule =
  rule_id :: string
  domain :: string
  subdomain :: "string option"
  path :: "string option"
  query_params :: "string list option"
  downstream_url :: string
  expires_at :: int
  created_at :: int
  updated_at :: int

text \<open>
  The table is the list of its rows in storage order; a \<open>SELECT\<close> without
  \<open>ORDER BY\<close> returns the selected rows in that order.
\<close>

type_synonym store = "rule list"

datatype error =
    DomainMandatory
  | RuleExists
  | StoreFailure string
  | NoValidFields
  | RuleNotFound

section \<open>generateRuleId\<close>

text \<open>
  The id is built in three steps, one definition each. \<open>queryParams\<close> is \<open>null\<close> or
  \<open>undefined\<close> (\<open>None\<close>; the code treats the two alike) or an array of strings, as
  the create schema has it.
\<close>

definition subdomain_part :: "jstr \<Rightarrow> jstr \<Rightarrow> string" where
  "subdomain_part d sub =
     (if sub = Null \<or> sub = Undefined \<or> sub = Str ''''
      then ''!.'' @ template d
      else template sub @ ''.'' @ template d)"

definition path_part :: "jstr \<Rightarrow> string" where
  "path_part p =
     (if p = Null \<or> p = Undefined \<or> p = Str '''' then ''/!''
      else if p = Str ''*'' then ''/*''
      else if \<not> startsWith (template p) ''/'' then ''/'' @ template p
      else template p)"

definition query_part :: "string list option \<Rightarrow> string" where
  "query_part queryParams =
     (case queryParams of
        None \<Rightarrow> []
      | Some paramsArray \<Rightarrow>
          if length paramsArray = 0 then ''/[]''
          else ''/['' @ join '','' paramsArray @ '']'')"

definition generateRuleId :: "jstr \<Rightarrow> jstr \<Rightarrow> jstr \<Rightarrow> string list option \<Rightarrow> string" where
  "generateRuleId d sub p queryParams =
     subdomain_part d sub @ path_part p @ query_part queryParams"

section \<open>Reading, creating, updating and deleting rules\<close>

definition getRule :: "string \<Rightarrow> store \<Rightarrow> rule option" where
  "getRule ruleId st = find (\<lambda>r. rule_id r = ruleId) st"

text \<open>
  \<open>ORDER BY created_at DESC\<close>: rows with equal keys stay in the order in which the
  query read them.
\<close>

definition order_by_created_desc :: "rule list \<Rightarrow> rule list" where
  "order_by_created_desc rows = sort_key (\<lambda>r. - created_at r) rows"

definition getAllRules :: "store \<Rightarrow> rule list" where
  "getAllRules st = order_by_created_desc st"

text \<open>
  The range condition on \<open>expires_at\<close> is read through the index \<open>idx_expires_at\<close>,
  that is, in ascending \<open>expires_at\<close> (storage order among equal keys), before the rows
  are ordered by \<open>created_at\<close>.
\<close>

definition index_scan_expires_after :: "int \<Rightarrow> store \<Rightarrow> rule list" where
  "index_scan_expires_after now st = sort_key expires_at (filter (\<lambda>r. expires_at r > now) st)"

definition getActiveRules :: "int \<Rightarrow> store \<Rightarrow> rule list" where
  "getActiveRules now st = order_by_created_desc (index_scan_expires_after now st)"

text \<open>
  The driver (better-sqlite3) reports SQLite's extended result codes; a violated
  primary key arrives as \<open>SQLITE_CONSTRAINT_PRIMARYKEY\<close>.
\<close>

definition driver_primary_key_code :: string where
  "driver_primary_key_code = ''SQLITE_CONSTRAINT_PRIMARYKEY''"

text \<open>
  \<open>createRule\<close>. The callers pass a string or \<open>null\<close> for subdomain and path
  (\<open>subdomain || null\<close> in the HTTP layer), which is what the statement binds.
  The insert fails on the primary key when the id is already present; \<open>code\<close> is the
  \<open>error.code\<close> the database driver attaches to that failure, which the
  \<open>catch\<close> block compares with \<open>SQLITE_CONSTRAINT\<close>. \<open>now\<close> is the
  clock value of the column defaults.
\<close>

definition createRule ::
  "string \<Rightarrow> int \<Rightarrow> jstr \<Rightarrow> string option \<Rightarrow> string option \<Rightarrow> string list option
     \<Rightarrow> string \<Rightarrow> int \<Rightarrow> store \<Rightarrow> (error + rule option) \<times> store" where
  "createRule code now d sub p queryParams downstreamUrl expiresAt st =
     (if \<not> truthy d then (Inl DomainMandatory, st)
      else
        let ruleId = generateRuleId d (js_of sub) (js_of p) queryParams in
        if ruleId \<in> rule_id ` set st
        then (if code = ''SQLITE_CONSTRAINT'' then (Inl RuleExists, st)
              else (Inl (StoreFailure code), st))
        else
          let st' = st @ [\<lparr> rule_id = ruleId, domain = template d, subdomain = sub,
                            path = p, query_params = queryParams,
                            downstream_url = downstreamUrl, expires_at = expiresAt,
                            created_at = now, updated_at = now \<rparr>]
          in (Inr (getRule ruleId st'), st'))"

text \<open>
  An entry of \<open>Object.entries(updates)\<close>: the two whitelisted keys carry the value
  types of the update schema; \<open>OtherField k\<close> is an entry under any other key \<open>k\<close>.
\<close>

datatype update_entry = DownstreamUrl string | ExpiresAt int | OtherField string

fun allowed_entry :: "update_entry \<Rightarrow> bool" where
  "allowed_entry (DownstreamUrl v) = True"
| "allowed_entry (ExpiresAt v) = True"
| "allowed_entry (OtherField k) = False"

fun set_clause :: "update_entry \<Rightarrow> rule \<Rightarrow> rule" where
  "set_clause (DownstreamUrl v) r = r\<lparr>downstream_url := v\<rparr>"
| "set_clause (ExpiresAt v) r = r\<lparr>expires_at := v\<rparr>"
| "set_clause (OtherField k) r = r"

definition updateRule ::
  "int \<Rightarrow> string \<Rightarrow> update_entry list \<Rightarrow> store \<Rightarrow> (error + rule option) \<times> store" where
  "updateRule now ruleId updates st =
     (let setClauses = filter allowed_entry updates in
      if length setClauses = 0 then (Inl NoValidFields, st)
      else
        let changes = length (filter (\<lambda>r. rule_id r = ruleId) st);
            st' = map (\<lambda>r. if rule_id r = ruleId
                             then (fold set_clause setClauses r)\<lparr>updated_at := now\<rparr>
                             else r) st
        in if changes = 0 then (Inl RuleNotFound, st')
           else (Inr (getRule ruleId st'), st'))"

text \<open>\<open>DELETE FROM routing_rules WHERE cond\<close>: the number of rows removed and the rest.\<close>

definition delete_where :: "(rule \<Rightarrow> bool) \<Rightarrow> store \<Rightarrow> nat \<times> store" where
  "delete_where cond st = (length (filter cond st), filter (\<lambda>r. \<not> cond r) st)"

definition deleteRule :: "string \<Rightarrow> store \<Rightarrow> bool \<times> store" where
  "deleteRule ruleId st =
     (let (changes, st') = delete_where (\<lambda>r. rule_id r = ruleId) st in (changes > 0, st'))"

definition pruneExpiredRules :: "int \<Rightarrow> store \<Rightarrow> nat \<times> store" where
  "pruneExpiredRules now st = delete_where (\<lambda>r. expires_at r \<le> now) st"

section \<open>findMatchingRule\<close>

text \<open>
  \<open>now\<close> is the clock reading, \<open>keys\<close> is \<open>Object.keys(queryParams)\<close> of the request.
  The three checks of the loop body. \<open>None\<close> is the \<open>continue\<close> (or the rule not being
  pushed); \<open>Some n\<close> is the amount added to \<open>score\<close>.
\<close>

definition check_subdomain :: "string option \<Rightarrow> jstr \<Rightarrow> nat option" where
  "check_subdomain rule_subdomain sub =
     (if rule_subdomain = Some ''*'' then Some 1
      else if rule_subdomain = Some ''!'' \<or> \<not> column_truthy rule_subdomain
      then (if truthy sub then None else Some 10)
      else if strict_eq rule_subdomain sub then Some 10
      else None)"

definition check_path :: "string option \<Rightarrow> jstr \<Rightarrow> nat option" where
  "check_path rule_path p =
     (if rule_path = Some ''*'' then Some 1
      else if rule_path = Some ''!'' \<or> \<not> column_truthy rule_path
      then (if truthy p \<and> p \<noteq> Str ''/'' \<and> p \<noteq> Str ''!'' then None else Some 10)
      else if strict_eq rule_path p then Some 10
      else None)"

definition check_query_params :: "string list option \<Rightarrow> string list \<Rightarrow> nat option" where
  "check_query_params rule_query_params requestParamKeys =
     (case rule_query_params of
        None \<Rightarrow> Some 5
      | Some allowedParams \<Rightarrow>
          if length allowedParams = 0
          then (if length requestParamKeys = 0 then Some 10 else None)
          else (if list_all (\<lambda>key. key \<in> set allowedParams) requestParamKeys
                then Some 10 else None))"

definition rule_score :: "rule \<Rightarrow> jstr \<Rightarrow> jstr \<Rightarrow> string list \<Rightarrow> nat option" where
  "rule_score r sub p keys =
     (case check_subdomain (subdomain r) sub of
        None \<Rightarrow> None
      | Some s1 \<Rightarrow>
          (case check_path (path r) p of
             None \<Rightarrow> None
           | Some s2 \<Rightarrow>
               (case check_query_params (query_params r) keys of
                  None \<Rightarrow> None
                | Some s3 \<Rightarrow> Some (s1 + s2 + s3))))"

fun collect_matches :: "rule list \<Rightarrow> jstr \<Rightarrow> jstr \<Rightarrow> string list \<Rightarrow> (rule \<times> nat) list" where
  "collect_matches [] sub p keys = []"
| "collect_matches (r # rs) sub p keys =
     (case rule_score r sub p keys of
        None \<Rightarrow> collect_matches rs sub p keys
      | Some score \<Rightarrow> (r, score) # collect_matches rs sub p keys)"

text \<open>
  \<open>matches.sort((a, b) => b.score - a.score)\<close>: descending by score; the sort is
  stable, so matches of equal score keep their order.
\<close>

definition sort_matches :: "(rule \<times> nat) list \<Rightarrow> (rule \<times> nat) list" where
  "sort_matches matches = sort_key (\<lambda>m. - int (snd m)) matches"

definition findMatchingRule ::
  "int \<Rightarrow> store \<Rightarrow> string \<Rightarrow> jstr \<Rightarrow> jstr \<Rightarrow> string list \<Rightarrow> rule option" where
  "findMatchingRule now st d sub p keys =
     (let allRules = filter (\<lambda>r. expires_at r > now \<and> domain r = d) st;
          matches = collect_matches allRules sub p keys
      in if length matches > 0 then Some (fst (hd (sort_matches matches))) else None)"

section \<open>Selectors and query policies\<close>

text \<open>
  The selector a stored or supplied value stands for, as the branches of
  \<open>findMatchingRule\<close> read it: \<open>*\<close> is the wildcard, \<open>!\<close> and every falsy value mean
  that the dimension must be absent, any other string is an exact value.
\<close>

datatype selector = Any | NoneSel | Exact string

definition selector_of :: "jstr \<Rightarrow> selector" where
  "selector_of v =
     (if v = Str ''*'' then Any
      else if v = Str ''!'' \<or> \<not> truthy v then NoneSel
      else Exact (template v))"

datatype query_policy = AllowAll | AllowNone | AllowList "string list"

definition policy_of :: "string list option \<Rightarrow> query_policy" where
  "policy_of q =
     (case q of None \<Rightarrow> AllowAll
      | Some ks \<Rightarrow> if ks = [] then AllowNone else AllowList ks)"

section \<open>The scoring scheme of the specification\<close>

text \<open>
  The three sub-scores as the specification words them, over selectors and query
  policies, for comparison with \<open>rule_score\<close>. \<open>claimed_path_score\<close> has the
  "absent, empty or root" class of request paths; \<open>spec_path_score\<close> adds the request
  path \<open>!\<close> to it.
\<close>

fun spec_subdomain_score :: "selector \<Rightarrow> jstr \<Rightarrow> nat option" where
  "spec_subdomain_score (Exact v) sub = (if sub = Str v then Some 10 else None)"
| "spec_subdomain_score NoneSel sub = (if truthy sub then None else Some 10)"
| "spec_subdomain_score Any sub = Some 1"

fun claimed_path_score :: "selector \<Rightarrow> jstr \<Rightarrow> nat option" where
  "claimed_path_score (Exact v) p = (if p = Str v then Some 10 else None)"
| "claimed_path_score NoneSel p =
     (if p = Null \<or> p = Undefined \<or> p = Str [] \<or> p = Str ''/'' then Some 10 else None)"
| "claimed_path_score Any p = Some 1"

fun spec_path_score :: "selector \<Rightarrow> jstr \<Rightarrow> nat option" where
  "spec_path_score (Exact v) p = (if p = Str v then Some 10 else None)"
| "spec_path_score NoneSel p =
     (if p = Null \<or> p = Undefined \<or> p = Str [] \<or> p = Str ''/'' \<or> p = Str ''!''
      then Some 10 else None)"
| "spec_path_score Any p = Some 1"

fun spec_query_score :: "query_policy \<Rightarrow> string list \<Rightarrow> nat option" where
  "spec_query_score AllowAll keys = Some 5"
| "spec_query_score AllowNone keys = (if keys = [] then Some 10 else None)"
| "spec_query_score (AllowList allowed) keys =
     (if set keys \<subseteq> set allowed then Some 10 else None)"

text \<open>The sum of the three sub-scores; \<open>None\<close> when any of them excludes the rule.\<close>

fun sum_scores :: "nat option \<Rightarrow> nat option \<Rightarrow> nat option \<Rightarrow> nat option" where
  "sum_scores (Some a) (Some b) (Some c) = Some (a + b + c)"
| "sum_scores _ _ _ = None"

definition claimed_total_score :: "rule \<Rightarrow> jstr \<Rightarrow> jstr \<Rightarrow> string list \<Rightarrow> nat option" where
  "claimed_total_score r sub p keys =
     sum_scores (spec_subdomain_score (selector_of (js_of (subdomain r))) sub)
                (claimed_path_score (selector_of (js_of (path r))) p)
                (spec_query_score (policy_of (query_params r)) keys)"

definition spec_total_score :: "rule \<Rightarrow> jstr \<Rightarrow> jstr \<Rightarrow> string list \<Rightarrow> nat option" where
  "spec_total_score r sub p keys =
     sum_scores (spec_subdomain_score (selector_of (js_of (subdomain r))) sub)
                (spec_path_score (selector_of (js_of (path r))) p)
                (spec_query_score (policy_of (query_params r)) keys)"

section \<open>Canonical selector values\<close>

text \<open>
  The values on which the rule id determines the selectors: a subdomain without
  \<open>/\<close>; an exact path that starts with \<open>/\<close>, has no \<open>[\<close> and is neither \<open>/*\<close> nor
  \<open>/!\<close>; query keys without a comma, the list not being the single empty key.
\<close>

definition canonical_subdomain :: "jstr \<Rightarrow> bool" where
  "canonical_subdomain v = (CHR ''/'' \<notin> set (template v))"

definition canonical_path :: "jstr \<Rightarrow> bool" where
  "canonical_path v =
     (case selector_of v of
        Exact s \<Rightarrow> startsWith s ''/'' \<and> CHR ''['' \<notin> set s \<and> s \<noteq> ''/*'' \<and> s \<noteq> ''/!''
      | _ \<Rightarrow> True)"

definition canonical_query :: "string list option \<Rightarrow> bool" where
  "canonical_query q =
     (case q of
        None \<Rightarrow> True
      | Some ks \<Rightarrow> list_all (\<lambda>k. CHR '','' \<notin> set k) ks \<and> ks \<noteq> [[]])"

text \<open>The subdomain label that starts the rule id.\<close>

definition sub_label :: "jstr \<Rightarrow> string" where
  "sub_label sub = (if sub = Null \<or> sub = Undefined \<or> sub = Str [] then ''!'' else template sub)"

section \<open>Sample rules\<close>

definition mk_rule ::
  "string \<Rightarrow> string option \<Rightarrow> string option \<Rightarrow> string list option \<Rightarrow> int \<Rightarrow> int \<Rightarrow> rule" where
  "mk_rule d sub p q expires created =
     \<lparr> rule_id = generateRuleId (Str d) (js_of sub) (js_of p) q, domain = d,
       subdomain = sub, path = p, query_params = q,
       downstream_url = ''http://backend:8080'', expires_at = expires,
       created_at = created, updated_at = created \<rparr>"

definition rule_users :: rule where
  "rule_users = mk_rule ''example.com'' (Some ''api'') (Some ''/users'')
                  (Some [''id'', ''page'']) 2000 100"

definition rule_wildcard :: rule where
  "rule_wildcard = mk_rule ''example.com'' (Some ''*'') (Some ''*'') None 3000 200"

definition rule_root :: rule where
  "rule_root = mk_rule ''example.com'' (Some ''*'') None None 3000 100"

definition rule_api_any :: rule where
  "rule_api_any = mk_rule ''example.com'' (Some ''api'') (Some ''*'') None 3000 100"

definition rule_any_users :: rule where
  "rule_any_users = mk_rule ''example.com'' (Some ''*'') (Some ''/users'') None 3000 200"

definition rule_expired :: rule where
  "rule_expired = mk_rule ''example.com'' (Some ''old'') (Some ''/test'') None 500 50"

definition rule_bare_home :: rule where
  "rule_bare_home = mk_rule ''example.com'' None (Some ''/home'') None 3000 100"

definition rule_bang_home :: rule where
  "rule_bang_home = mk_rule ''example.com'' (Some ''!'') (Some ''/home'') None 3000 100"

section \<open>Auxiliary facts\<close>

subsection \<open>The head of a stably sorted list\<close>

lemma hd_insort_key:
  "hd (insort_key f x ys) = (if ys = [] \<or> f x \<le> f (hd ys) then x else hd ys)"
  by (cases ys) auto

lemma sort_key_eq_Nil: "sort_key f xs = [] \<longleftrightarrow> xs = []"
  by (metis length_sort list.size(3) length_0_conv)

lemma hd_sort_key_split:
  "xs \<noteq> [] \<Longrightarrow>
   \<exists>pre post. xs = pre @ hd (sort_key f xs) # post
     \<and> (\<forall>y\<in>set pre. f (hd (sort_key f xs)) < f y)
     \<and> (\<forall>y\<in>set post. f (hd (sort_key f xs)) \<le> f y)"
proof (induction xs)
  case Nil
  then show ?case by simp
next
  case (Cons x xs)
  show ?case
  proof (cases "xs = []")
    case True
    then have "x # xs = [] @ hd (sort_key f (x # xs)) # []" by simp
    then show ?thesis by (metis empty_iff empty_set)
  next
    case False
    let ?h = "hd (sort_key f xs)"
    from Cons.IH [OF False] obtain pre post where
      split: "xs = pre @ ?h # post"
      and lt: "\<forall>y\<in>set pre. f ?h < f y"
      and le: "\<forall>y\<in>set post. f ?h \<le> f y"
      by blast
    have ne: "sort_key f xs \<noteq> []" using False by (simp add: sort_key_eq_Nil)
    show ?thesis
    proof (cases "f x \<le> f ?h")
      case True
      then have h: "hd (sort_key f (x # xs)) = x" by (simp add: hd_insort_key)
      have "\<forall>y\<in>set xs. f x \<le> f y"
      proof
        fix y assume "y \<in> set xs"
        then have "y \<in> set pre \<or> y = ?h \<or> y \<in> set post"
          using split by (metis Un_iff set_ConsD set_append)
        then have "f ?h \<le> f y" using lt le by auto
        then show "f x \<le> f y" using True by simp
      qed
      then have "x # xs = [] @ hd (sort_key f (x # xs)) # xs
        \<and> (\<forall>y\<in>set []. f (hd (sort_key f (x # xs))) < f y)
        \<and> (\<forall>y\<in>set xs. f (hd (sort_key f (x # xs))) \<le> f y)"
        using h by simp
      then show ?thesis by blast
    next
      case False
      then have h: "hd (sort_key f (x # xs)) = ?h" using ne by (simp add: hd_insort_key)
      have "x # xs = (x # pre) @ ?h # post" using split by simp
      moreover have "\<forall>y\<in>set (x # pre). f ?h < f y" using lt False by auto
      ultimately show ?thesis using le h by metis
    qed
  qed
qed

lemma set_collect_matches:
  "(r, s) \<in> set (collect_matches rs sub p keys)
     \<longleftrightarrow> r \<in> set rs \<and> rule_score r sub p keys = Some s"
  by (induction rs) (auto split: option.splits)

lemma collect_matches_split:
  "collect_matches (filter P st) sub p keys = pre' @ (r, s) # post' \<Longrightarrow>
   \<exists>pre post. st = pre @ r # post \<and> P r \<and> rule_score r sub p keys = Some s
     \<and> collect_matches (filter P pre) sub p keys = pre'
     \<and> collect_matches (filter P post) sub p keys = post'"
proof (induction st arbitrary: pre')
  case Nil
  then show ?case by simp
next
  case (Cons x st)
  note IH = Cons.IH and prems = Cons.prems
  show ?case
  proof (cases "P x \<and> rule_score x sub p keys \<noteq> None")
    case False
    then have "collect_matches (filter P (x # st)) sub p keys
        = collect_matches (filter P st) sub p keys"
      by (cases "P x") auto
    then have "collect_matches (filter P st) sub p keys = pre' @ (r, s) # post'"
      using prems by simp
    from IH [OF this] obtain pre post where
      "st = pre @ r # post" "P r" "rule_score r sub p keys = Some s"
      "collect_matches (filter P pre) sub p keys = pre'"
      "collect_matches (filter P post) sub p keys = post'"
      by blast
    then have "x # st = (x # pre) @ r # post \<and> P r \<and> rule_score r sub p keys = Some s
      \<and> collect_matches (filter P (x # pre)) sub p keys = pre'
      \<and> collect_matches (filter P post) sub p keys = post'"
      using False by (cases "P x") auto
    then show ?thesis by blast
  next
    case True
    then obtain sx where sx: "rule_score x sub p keys = Some sx" and px: "P x" by auto
    then have eq: "(x, sx) # collect_matches (filter P st) sub p keys = pre' @ (r, s) # post'"
      using prems by simp
    show ?thesis
    proof (cases pre')
      case Nil
      then have "x = r" "sx = s" "collect_matches (filter P st) sub p keys = post'"
        using eq by auto
      then have "x # st = [] @ r # st \<and> P r \<and> rule_score r sub p keys = Some s
        \<and> collect_matches (filter P []) sub p keys = pre'
        \<and> collect_matches (filter P st) sub p keys = post'"
        using px sx Nil by simp
      then show ?thesis by blast
    next
      case (Cons a pre'')
      then have "collect_matches (filter P st) sub p keys = pre'' @ (r, s) # post'"
        and a: "a = (x, sx)"
        using eq by auto
      from IH [OF this(1)] obtain pre post where
        "st = pre @ r # post" "P r" "rule_score r sub p keys = Some s"
        "collect_matches (filter P pre) sub p keys = pre''"
        "collect_matches (filter P post) sub p keys = post'"
        by blast
      then have "x # st = (x # pre) @ r # post \<and> P r \<and> rule_score r sub p keys = Some s
        \<and> collect_matches (filter P (x # pre)) sub p keys = pre'
        \<and> collect_matches (filter P post) sub p keys = post'"
        using px sx Cons a by simp
      then show ?thesis by blast
    qed
  qed
qed

subsection \<open>The loop body against the scoring scheme\<close>

lemma check_subdomain_spec:
  "check_subdomain c sub = spec_subdomain_score (selector_of (js_of c)) sub"
proof (cases c)
  case None
  then show ?thesis by (simp add: check_subdomain_def selector_of_def)
next
  case (Some v)
  then show ?thesis
    by (cases sub) (auto simp: check_subdomain_def selector_of_def)
qed

lemma check_path_spec:
  "check_path c p = spec_path_score (selector_of (js_of c)) p"
proof (cases c)
  case None
  then show ?thesis by (cases p) (auto simp: check_path_def selector_of_def)
next
  case (Some v)
  then show ?thesis
    by (cases p) (auto simp: check_path_def selector_of_def)
qed

lemma check_query_params_spec:
  "check_query_params q keys = spec_query_score (policy_of q) keys"
  by (auto simp: check_query_params_def policy_of_def list_all_iff split: option.splits)

lemma rule_score_spec: "rule_score r sub p keys = spec_total_score r sub p keys"
proof -
  have "rule_score r sub p keys =
          sum_scores (check_subdomain (subdomain r) sub) (check_path (path r) p)
                     (check_query_params (query_params r) keys)"
    by (simp add: rule_score_def split: option.splits)
  then show ?thesis
    by (simp add: spec_total_score_def check_subdomain_spec check_path_spec
          check_query_params_spec)
qed

lemma collect_matches_Nil:
  "collect_matches rs sub p keys = [] \<longleftrightarrow> (\<forall>r\<in>set rs. rule_score r sub p keys = None)"
  by (induction rs) (auto split: option.splits)

lemma findMatchingRule_None:
  "findMatchingRule now st d sub p keys = None \<longleftrightarrow>
     (\<forall>r\<in>set st. now < expires_at r \<and> domain r = d \<longrightarrow> rule_score r sub p keys = None)"
proof -
  have "findMatchingRule now st d sub p keys = None \<longleftrightarrow>
          collect_matches (filter (\<lambda>r. now < expires_at r \<and> domain r = d) st) sub p keys = []"
    by (simp add: findMatchingRule_def Let_def)
  then show ?thesis by (auto simp: collect_matches_Nil)
qed

lemma findMatchingRule_Some_split:
  assumes "findMatchingRule now st d sub p keys = Some r"
  shows "\<exists>pre post s. st = pre @ r # post \<and> now < expires_at r \<and> domain r = d
           \<and> rule_score r sub p keys = Some s
           \<and> (\<forall>r'\<in>set pre. \<forall>s'. now < expires_at r' \<and> domain r' = d
                  \<and> rule_score r' sub p keys = Some s' \<longrightarrow> s' < s)
           \<and> (\<forall>r'\<in>set post. \<forall>s'. now < expires_at r' \<and> domain r' = d
                  \<and> rule_score r' sub p keys = Some s' \<longrightarrow> s' \<le> s)"
proof -
  let ?P = "\<lambda>r. now < expires_at r \<and> domain r = d"
  let ?ms = "collect_matches (filter ?P st) sub p keys"
  let ?f = "\<lambda>m::rule \<times> nat. - int (snd m)"
  let ?h = "hd (sort_key ?f ?ms)"
  have ne: "?ms \<noteq> []" and r: "r = fst ?h"
    using assms by (auto simp: findMatchingRule_def Let_def sort_matches_def split: if_splits)
  from hd_sort_key_split [OF ne, of ?f] obtain pre' post' where
    ms: "?ms = pre' @ ?h # post'"
    and lt: "\<forall>y\<in>set pre'. ?f ?h < ?f y"
    and le: "\<forall>y\<in>set post'. ?f ?h \<le> ?f y"
    by blast
  have "?ms = pre' @ (r, snd ?h) # post'" using ms r by simp
  from collect_matches_split [OF this] obtain pre post where
    st: "st = pre @ r # post" and Pr: "?P r" and sc: "rule_score r sub p keys = Some (snd ?h)"
    and pre: "collect_matches (filter ?P pre) sub p keys = pre'"
    and post: "collect_matches (filter ?P post) sub p keys = post'"
    by blast
  have a: "\<forall>r'\<in>set pre. \<forall>s'. ?P r' \<and> rule_score r' sub p keys = Some s' \<longrightarrow> s' < snd ?h"
  proof (intro ballI allI impI)
    fix r' s' assume "r' \<in> set pre" and "?P r' \<and> rule_score r' sub p keys = Some s'"
    then have "(r', s') \<in> set pre'"
      using pre set_collect_matches [of r' s' "filter ?P pre" sub p keys] by simp
    then show "s' < snd ?h" using lt by fastforce
  qed
  have b: "\<forall>r'\<in>set post. \<forall>s'. ?P r' \<and> rule_score r' sub p keys = Some s' \<longrightarrow> s' \<le> snd ?h"
  proof (intro ballI allI impI)
    fix r' s' assume "r' \<in> set post" and "?P r' \<and> rule_score r' sub p keys = Some s'"
    then have "(r', s') \<in> set post'"
      using post set_collect_matches [of r' s' "filter ?P post" sub p keys] by simp
    then show "s' \<le> snd ?h" using le by fastforce
  qed
  show ?thesis using st Pr sc a b by blast
qed

lemma findMatchingRule_Some_best:
  assumes "findMatchingRule now st d sub p keys = Some r"
  shows "r \<in> set st \<and> now < expires_at r \<and> domain r = d
     \<and> (\<exists>s. rule_score r sub p keys = Some s
           \<and> (\<forall>r'\<in>set st. \<forall>s'. now < expires_at r' \<and> domain r' = d
                  \<and> rule_score r' sub p keys = Some s' \<longrightarrow> s' \<le> s))"
proof -
  from findMatchingRule_Some_split [OF assms] obtain pre post s where
    st: "st = pre @ r # post" and P: "now < expires_at r" "domain r = d"
    and sc: "rule_score r sub p keys = Some s"
    and a: "\<forall>r'\<in>set pre. \<forall>s'. now < expires_at r' \<and> domain r' = d
                  \<and> rule_score r' sub p keys = Some s' \<longrightarrow> s' < s"
    and b: "\<forall>r'\<in>set post. \<forall>s'. now < expires_at r' \<and> domain r' = d
                  \<and> rule_score r' sub p keys = Some s' \<longrightarrow> s' \<le> s"
    by blast
  have "\<forall>r'\<in>set st. \<forall>s'. now < expires_at r' \<and> domain r' = d
                  \<and> rule_score r' sub p keys = Some s' \<longrightarrow> s' \<le> s"
  proof (intro ballI allI impI)
    fix r' s' assume in_st: "r' \<in> set st"
      and h: "now < expires_at r' \<and> domain r' = d \<and> rule_score r' sub p keys = Some s'"
    from in_st st have "r' \<in> set pre \<or> r' = r \<or> r' \<in> set post" by auto
    then show "s' \<le> s"
    proof (elim disjE)
      assume "r' \<in> set pre"
      then have "s' < s" using a h by blast
      then show ?thesis by simp
    next
      assume "r' = r" then show ?thesis using sc h by simp
    next
      assume "r' \<in> set post" then show ?thesis using b h by blast
    qed
  qed
  then show ?thesis using st P sc by auto
qed

lemmas id_defs =
  generateRuleId_def subdomain_part_def path_part_def query_part_def startsWith_def

lemmas match_defs =
  findMatchingRule_def sort_matches_def rule_score_def check_subdomain_def check_path_def
  check_query_params_def

subsection \<open>Listing and updating\<close>

lemma set_order_by_created_desc: "set (order_by_created_desc rows) = set rows"
  by (simp add: order_by_created_desc_def)

lemma fold_set_clause_frame:
  "rule_id (fold set_clause cs r) = rule_id r
   \<and> domain (fold set_clause cs r) = domain r
   \<and> subdomain (fold set_clause cs r) = subdomain r
   \<and> path (fold set_clause cs r) = path r
   \<and> query_params (fold set_clause cs r) = query_params r
   \<and> created_at (fold set_clause cs r) = created_at r"
proof (induction cs arbitrary: r)
  case Nil
  then show ?case by simp
next
  case (Cons c cs)
  show ?case using Cons.IH [of "set_clause c r"] by (cases c) simp_all
qed

subsection \<open>Reading the selectors back from a rule id\<close>

lemma split_at_first:
  assumes "c \<notin> set a" and "c \<notin> set b" and "a @ c # u = b @ c # v"
  shows "a = b \<and> u = v"
proof -
  have "takeWhile (\<lambda>x. x \<noteq> c) (a @ c # u) = a"
    using assms(1) by (auto simp: takeWhile_tail)
  moreover have "takeWhile (\<lambda>x. x \<noteq> c) (b @ c # v) = b"
    using assms(2) by (auto simp: takeWhile_tail)
  ultimately have "a = b" using assms(3) by simp
  then show ?thesis using assms(3) by simp
qed

lemma query_part_None: "query_part None = []"
  by (simp add: query_part_def)

lemma query_part_Some: "query_part (Some ks) = ''/['' @ join '','' ks @ '']''"
  by (cases ks) (simp_all add: query_part_def)

lemma startsWith_slash: "startsWith s ''/'' \<longleftrightarrow> (\<exists>t. s = CHR ''/'' # t)"
  by (cases s) (auto simp: startsWith_def)

lemma path_part_slash: "path_part p = CHR ''/'' # tl (path_part p)"
  by (cases p) (auto simp: path_part_def startsWith_slash)

lemma path_part_canonical:
  assumes "canonical_path p"
  shows "path_part p = (case selector_of p of Any \<Rightarrow> ''/*'' | NoneSel \<Rightarrow> ''/!'' | Exact s \<Rightarrow> s)"
  using assms
  by (cases p)
     (auto simp: canonical_path_def selector_of_def path_part_def startsWith_slash
           split: if_splits)

lemma path_part_no_bracket:
  assumes "canonical_path p"
  shows "CHR ''['' \<notin> set (path_part p)"
  using assms path_part_canonical [OF assms]
  by (auto simp: canonical_path_def split: selector.splits)

lemma path_part_inj:
  assumes "canonical_path p" and "canonical_path p'" and "path_part p = path_part p'"
  shows "selector_of p = selector_of p'"
  using assms(3) assms(1,2)
  unfolding path_part_canonical [OF assms(1)] path_part_canonical [OF assms(2)]
  by (auto simp: canonical_path_def split: selector.splits)

lemma subdomain_part_label: "subdomain_part d sub = sub_label sub @ CHR ''.'' # template d"
  by (simp add: subdomain_part_def sub_label_def)

lemma sub_label_inj: "sub_label sub = sub_label sub' \<Longrightarrow> selector_of sub = selector_of sub'"
  by (cases sub; cases sub') (auto simp: sub_label_def selector_of_def split: if_splits)

lemma sub_label_no_slash: "canonical_subdomain sub \<Longrightarrow> CHR ''/'' \<notin> set (sub_label sub)"
  by (auto simp: canonical_subdomain_def sub_label_def)

lemma join_comma_inj_nonempty:
  assumes "list_all (\<lambda>k. CHR '','' \<notin> set k) ks"
      and "list_all (\<lambda>k. CHR '','' \<notin> set k) ks'"
      and "ks \<noteq> []" and "ks' \<noteq> []"
      and "join '','' ks = join '','' ks'"
  shows "ks = ks'"
  using assms
proof (induction "'',''" ks arbitrary: ks' rule: join.induct)
  case 1
  then show ?case by simp
next
  case (2 x)
  show ?case
  proof (cases ks')
    case Nil
    then show ?thesis using "2.prems" by simp
  next
    case (Cons y ys)
    show ?thesis
    proof (cases ys)
      case Nil
      then show ?thesis using Cons "2.prems" by simp
    next
      case (Cons z zs)
      then have "x = y @ '','' @ join '','' (z # zs)"
        using \<open>ks' = y # ys\<close> "2.prems"(5) by simp
      then have "CHR '','' \<in> set x" by simp
      then show ?thesis using "2.prems"(1) by simp
    qed
  qed
next
  case (3 x y ys)
  show ?case
  proof (cases ks')
    case Nil
    then show ?thesis using "3.prems" by simp
  next
    case (Cons x' rest)
    show ?thesis
    proof (cases rest)
      case Nil
      then have "x' = x @ '','' @ join '','' (y # ys)"
        using Cons "3.prems"(5) by simp
      then have "CHR '','' \<in> set x'" by simp
      then show ?thesis using "3.prems"(2) Cons by simp
    next
      case (Cons y' ys')
      then have ks': "ks' = x' # y' # ys'" using \<open>ks' = x' # rest\<close> by simp
      then have eq: "x @ CHR '','' # join '','' (y # ys) = x' @ CHR '','' # join '','' (y' # ys')"
        using "3.prems"(5) by simp
      have "CHR '','' \<notin> set x" "CHR '','' \<notin> set x'"
        using "3.prems"(1,2) ks' by simp_all
      from split_at_first [OF this eq]
      have x: "x = x'" and j: "join '','' (y # ys) = join '','' (y' # ys')" by simp_all
      have "y # ys = y' # ys'"
        using "3.hyps" [of "y' # ys'"] "3.prems"(1,2) ks' j by simp
      then show ?thesis using x ks' by simp
    qed
  qed
qed

lemma join_comma_empty:
  assumes "ks \<noteq> []" and "join '','' ks = []"
  shows "ks = [[]]"
proof (cases ks)
  case Nil
  then show ?thesis using assms(1) by simp
next
  case (Cons x xs)
  then show ?thesis using assms(2) by (cases xs) simp_all
qed

lemma join_comma_inj:
  assumes "list_all (\<lambda>k. CHR '','' \<notin> set k) ks" and "ks \<noteq> [[]]"
      and "list_all (\<lambda>k. CHR '','' \<notin> set k) ks'" and "ks' \<noteq> [[]]"
      and "join '','' ks = join '','' ks'"
  shows "ks = ks'"
proof (cases "ks = []")
  case True
  then have "join '','' ks' = []" using assms(5) by simp
  then have "ks' = []" using join_comma_empty [of ks'] assms(4) by blast
  then show ?thesis using True by simp
next
  case False
  show ?thesis
  proof (cases "ks' = []")
    case True
    then have "join '','' ks = []" using assms(5) by simp
    then show ?thesis using join_comma_empty [of ks] assms(2) False by blast
  next
    case ne: False
    show ?thesis by (rule join_comma_inj_nonempty [OF assms(1,3) False ne assms(5)])
  qed
qed

lemma path_query_inj:
  assumes "canonical_path p" and "canonical_path p'"
      and "canonical_query q" and "canonical_query q'"
      and "path_part p @ query_part q = path_part p' @ query_part q'"
  shows "path_part p = path_part p' \<and> q = q'"
proof (cases q)
  case None
  show ?thesis
  proof (cases q')
    case None
    then show ?thesis using \<open>q = None\<close> assms(5) by (simp add: query_part_None)
  next
    case (Some ks')
    then have "path_part p = (path_part p' @ ''/'') @ CHR ''['' # (join '','' ks' @ '']'')"
      using \<open>q = None\<close> assms(5) by (simp add: query_part_Some query_part_None)
    then have "CHR ''['' \<in> set (path_part p)" by (metis in_set_conv_decomp)
    then show ?thesis using path_part_no_bracket [OF assms(1)] by simp
  qed
next
  case (Some ks)
  show ?thesis
  proof (cases q')
    case None
    then have "path_part p' = (path_part p @ ''/'') @ CHR ''['' # (join '','' ks @ '']'')"
      using Some assms(5) [symmetric] by (simp add: query_part_Some query_part_None)
    then have "CHR ''['' \<in> set (path_part p')" by (metis in_set_conv_decomp)
    then show ?thesis using path_part_no_bracket [OF assms(2)] by simp
  next
    case (Some ks')
    have eq: "(path_part p @ ''/'') @ CHR ''['' # (join '','' ks @ '']'')
            = (path_part p' @ ''/'') @ CHR ''['' # (join '','' ks' @ '']'')"
      using assms(5) \<open>q = Some ks\<close> Some by (simp add: query_part_Some)
    have "CHR ''['' \<notin> set (path_part p @ ''/'')" "CHR ''['' \<notin> set (path_part p' @ ''/'')"
      using path_part_no_bracket [OF assms(1)] path_part_no_bracket [OF assms(2)] by simp_all
    from split_at_first [OF this eq]
    have pp: "path_part p = path_part p'" and j: "join '','' ks = join '','' ks'" by simp_all
    have "ks = ks'"
      using join_comma_inj [OF _ _ _ _ j] assms(3,4) \<open>q = Some ks\<close> Some
      by (simp add: canonical_query_def)
    then show ?thesis using pp \<open>q = Some ks\<close> Some by simp
  qed
qed

lemma label_before_first_slash:
  assumes "CHR ''/'' \<notin> set a" and "CHR ''/'' \<notin> set b"
      and "a @ CHR ''.'' # D @ CHR ''/'' # u = b @ CHR ''.'' # D @ CHR ''/'' # v"
  shows "a = b \<and> u = v"
proof -
  let ?D1 = "takeWhile (\<lambda>x. x \<noteq> CHR ''/'') D"
  let ?D2 = "dropWhile (\<lambda>x. x \<noteq> CHR ''/'') D"
  have D: "D = ?D1 @ ?D2" by simp
  have nos: "CHR ''/'' \<notin> set ?D1" by (auto dest: set_takeWhileD)
  have "\<exists>w. ?D2 @ [CHR ''/''] = CHR ''/'' # w"
  proof (cases ?D2)
    case Nil
    then have "?D2 @ [CHR ''/''] = CHR ''/'' # []" by (simp only: append_Nil)
    then show ?thesis by blast
  next
    case (Cons c cs)
    then have "c = CHR ''/''" using hd_dropWhile [of "\<lambda>x. x \<noteq> CHR ''/''" D] by auto
    then have "?D2 @ [CHR ''/''] = CHR ''/'' # (cs @ [CHR ''/''])"
      using Cons by (simp only: append_Cons)
    then show ?thesis by blast
  qed
  then obtain w where w: "?D2 @ [CHR ''/''] = CHR ''/'' # w" by blast
  have lhs: "a @ CHR ''.'' # D @ CHR ''/'' # u = (a @ CHR ''.'' # ?D1) @ CHR ''/'' # (w @ u)"
  proof -
    have "D @ CHR ''/'' # u = ?D1 @ (?D2 @ [CHR ''/'']) @ u" by simp
    then show ?thesis unfolding w by simp
  qed
  have rhs: "b @ CHR ''.'' # D @ CHR ''/'' # v = (b @ CHR ''.'' # ?D1) @ CHR ''/'' # (w @ v)"
  proof -
    have "D @ CHR ''/'' # v = ?D1 @ (?D2 @ [CHR ''/'']) @ v" by simp
    then show ?thesis unfolding w by simp
  qed
  have "CHR ''/'' \<notin> set (a @ CHR ''.'' # ?D1)" "CHR ''/'' \<notin> set (b @ CHR ''.'' # ?D1)"
    using assms(1,2) nos by simp_all
  from split_at_first [OF this] assms(3) lhs rhs
  have "a @ CHR ''.'' # ?D1 = b @ CHR ''.'' # ?D1" and "w @ u = w @ v" by metis+
  then show ?thesis by simp
qed

subsection \<open>Creating rules and the stored subdomain\<close>

lemma getRule_appended:
  "ruleId \<notin> rule_id ` set st \<Longrightarrow> rule_id row = ruleId \<Longrightarrow> getRule ruleId (st @ [row]) = Some row"
  by (induction st) (auto simp: getRule_def)

lemma stored_none_forms_check:
  assumes "c = None \<or> c = Some [] \<or> c = Some ''!''"
  shows "check_subdomain c sub = (if truthy sub then None else Some 10)"
  using assms by (auto simp: check_subdomain_def)

lemma rule_score_sum:
  "rule_score r sub p keys =
     sum_scores (check_subdomain (subdomain r) sub) (check_path (path r) p)
                (check_query_params (query_params r) keys)"
  by (simp add: rule_score_def split: option.splits)

section \<open>Best-match resolution\<close>

text \<open>
  C1. \<open>findMatchingRule\<close> scores every rule as the scoring scheme says, with
  the request path \<open>!\<close> counted among the paths a "none" path selector accepts
  (\<open>spec_path_score\<close>): the total is the sum of the subdomain, path and query
  sub-scores, and a rule that any of them excludes has no score. The rule returned is
  one of the stored rules that are active at \<open>now\<close> and belong to the request's domain,
  it has a score, and no such rule has a higher one; nothing is returned exactly when
  no such rule has a score.
\<close>

theorem resolve_selects_best_scored_candidate:
  "rule_score x sub p keys = spec_total_score x sub p keys
   \<and> (case findMatchingRule now st d sub p keys of
        None \<Rightarrow>
          \<forall>r\<in>set st. now < expires_at r \<and> domain r = d \<longrightarrow> spec_total_score r sub p keys = None
      | Some r \<Rightarrow>
          r \<in> set st \<and> now < expires_at r \<and> domain r = d
          \<and> (\<exists>s. spec_total_score r sub p keys = Some s
                \<and> (\<forall>r'\<in>set st. \<forall>s'. now < expires_at r' \<and> domain r' = d
                       \<and> spec_total_score r' sub p keys = Some s' \<longrightarrow> s' \<le> s)))"
proof (cases "findMatchingRule now st d sub p keys")
  case None
  then show ?thesis
    using findMatchingRule_None [of now st d sub p keys] by (simp add: rule_score_spec)
next
  case (Some r)
  from findMatchingRule_Some_best [OF this] show ?thesis
    using Some by (simp add: rule_score_spec)
qed

theorem resolve_selects_best_scored_candidate_witness:
  "findMatchingRule 1000 [rule_users, rule_wildcard] ''example.com''
       (Str ''api'') (Str ''/users'') [''id'', ''page''] = Some rule_users
   \<and> spec_total_score rule_users (Str ''api'') (Str ''/users'') [''id'', ''page''] = Some 30
   \<and> spec_total_score rule_wildcard (Str ''api'') (Str ''/users'') [''id'', ''page''] = Some 7
   \<and> rule_score rule_users (Str ''api'') (Str ''/users'') [''id'', ''page''] = Some 30"
  using resolve_selects_best_scored_candidate
          [where x = rule_users and sub = "Str ''api''" and p = "Str ''/users''"
             and keys = "[''id'', ''page'']" and now = 1000
             and st = "[rule_users, rule_wildcard]" and d = "''example.com''"]
  by (simp add: rule_users_def rule_wildcard_def mk_rule_def id_defs match_defs
        spec_total_score_def selector_of_def policy_of_def)

text \<open>
  With "absent, empty or root" as the only request paths a "none" path selector
  accepts, the request path \<open>!\<close> would exclude a rule stored without a path; the rule
  is returned.
\<close>

theorem resolve_none_path_counterexample:
  "findMatchingRule 1000 [rule_root] ''example.com'' Null (Str ''!'') [] = Some rule_root
   \<and> claimed_total_score rule_root Null (Str ''!'') [] = None"
  by (simp add: rule_root_def mk_rule_def id_defs match_defs
        claimed_total_score_def selector_of_def policy_of_def)

text \<open>
  C3. The rule returned is fixed by the rows in storage order, the time and
  the request: it is the first row, in storage order, among the active rules of the
  domain with the highest score. Every such rule stored before it has a strictly lower
  score and every one stored after it has at most its score; \<open>created_at\<close> and
  \<open>rule_id\<close> are not compared.
\<close>

theorem resolve_tie_first_in_storage_order:
  assumes "findMatchingRule now st d sub p keys = Some r"
  shows "\<exists>pre post s. st = pre @ r # post \<and> now < expires_at r \<and> domain r = d
           \<and> rule_score r sub p keys = Some s
           \<and> (\<forall>r'\<in>set pre. \<forall>s'. now < expires_at r' \<and> domain r' = d
                  \<and> rule_score r' sub p keys = Some s' \<longrightarrow> s' < s)
           \<and> (\<forall>r'\<in>set post. \<forall>s'. now < expires_at r' \<and> domain r' = d
                  \<and> rule_score r' sub p keys = Some s' \<longrightarrow> s' \<le> s)"
  using assms by (rule findMatchingRule_Some_split)

theorem resolve_tie_first_in_storage_order_witness:
  "findMatchingRule 1000 [rule_api_any, rule_any_users] ''example.com''
       (Str ''api'') (Str ''/users'') [] = Some rule_api_any
   \<and> (\<exists>pre post s. [rule_api_any, rule_any_users] = pre @ rule_api_any # post
         \<and> 1000 < expires_at rule_api_any \<and> domain rule_api_any = ''example.com''
         \<and> rule_score rule_api_any (Str ''api'') (Str ''/users'') [] = Some s
         \<and> (\<forall>r'\<in>set pre. \<forall>s'. 1000 < expires_at r' \<and> domain r' = ''example.com''
                \<and> rule_score r' (Str ''api'') (Str ''/users'') [] = Some s' \<longrightarrow> s' < s)
         \<and> (\<forall>r'\<in>set post. \<forall>s'. 1000 < expires_at r' \<and> domain r' = ''example.com''
                \<and> rule_score r' (Str ''api'') (Str ''/users'') [] = Some s' \<longrightarrow> s' \<le> s))"
proof -
  have found: "findMatchingRule 1000 [rule_api_any, rule_any_users] ''example.com''
       (Str ''api'') (Str ''/users'') [] = Some rule_api_any"
    by (simp add: rule_api_any_def rule_any_users_def mk_rule_def id_defs match_defs)
  from resolve_tie_first_in_storage_order [OF found] found show ?thesis by simp
qed

text \<open>
  Two active rules of one domain tie at 16 for the request; the one created earlier
  and stored first is returned, and with the two rows stored the other way round the
  other one is.
\<close>

theorem resolve_tie_counterexample:
  "findMatchingRule 1000 [rule_api_any, rule_any_users] ''example.com''
       (Str ''api'') (Str ''/users'') [] = Some rule_api_any
   \<and> rule_score rule_api_any (Str ''api'') (Str ''/users'') [] = Some 16
   \<and> rule_score rule_any_users (Str ''api'') (Str ''/users'') [] = Some 16
   \<and> created_at rule_api_any < created_at rule_any_users
   \<and> findMatchingRule 1000 [rule_any_users, rule_api_any] ''example.com''
       (Str ''api'') (Str ''/users'') [] = Some rule_any_users"
  by (simp add: rule_api_any_def rule_any_users_def mk_rule_def id_defs match_defs)

text \<open>
  C4. A rule whose allowed query parameters are a list is never returned for a request
  that carries a key outside the list: the rule gets no score, whatever its subdomain
  and path checks give, so it is not returned even when it is the only rule stored.
\<close>

theorem allow_list_mismatch_is_hard_rejection:
  assumes "query_params r = Some allowed" and "k \<in> set keys" and "k \<notin> set allowed"
  shows "rule_score r sub p keys = None \<and> findMatchingRule now st d sub p keys \<noteq> Some r"
proof -
  have "check_query_params (query_params r) keys = None"
    using assms by (auto simp: check_query_params_def list_all_iff)
  then have none: "rule_score r sub p keys = None"
    by (simp add: rule_score_def split: option.splits)
  have "findMatchingRule now st d sub p keys \<noteq> Some r"
  proof
    assume "findMatchingRule now st d sub p keys = Some r"
    from findMatchingRule_Some_best [OF this] show False using none by auto
  qed
  with none show ?thesis by simp
qed

theorem allow_list_mismatch_is_hard_rejection_witness:
  "query_params rule_users = Some [''id'', ''page'']
   \<and> ''invalid'' \<in> set [''id'', ''invalid''] \<and> ''invalid'' \<notin> set [''id'', ''page'']
   \<and> check_subdomain (subdomain rule_users) (Str ''api'') = Some 10
   \<and> check_path (path rule_users) (Str ''/users'') = Some 10
   \<and> rule_score rule_users (Str ''api'') (Str ''/users'') [''id'', ''invalid''] = None
   \<and> findMatchingRule 1000 [rule_users] ''example.com'' (Str ''api'') (Str ''/users'')
        [''id'', ''invalid''] \<noteq> Some rule_users"
  using allow_list_mismatch_is_hard_rejection
          [where r = rule_users and allowed = "[''id'', ''page'']" and k = "''invalid''"
             and keys = "[''id'', ''invalid'']" and sub = "Str ''api''"
             and p = "Str ''/users''" and now = 1000 and st = "[rule_users]"
             and d = "''example.com''"]
  by (simp add: rule_users_def mk_rule_def check_subdomain_def check_path_def)

section \<open>Expiry\<close>

text \<open>
  C5. A rule is active at \<open>now\<close> exactly when its \<open>expires_at\<close> is strictly greater:
  \<open>getActiveRules\<close> lists exactly the stored rules with \<open>now < expires_at\<close>, so a
  rule with \<open>expires_at \<le> now\<close> (equal included) is neither listed as active nor
  returned by \<open>findMatchingRule\<close>, while \<open>getAllRules\<close> lists every stored rule,
  expired or not.
\<close>

theorem expiry_governs_visibility:
  "(r \<in> set (getActiveRules now st) \<longleftrightarrow> r \<in> set st \<and> now < expires_at r)
   \<and> (expires_at r \<le> now \<longrightarrow>
         r \<notin> set (getActiveRules now st)
         \<and> findMatchingRule now st d sub p keys \<noteq> Some r)
   \<and> (r \<in> set (getAllRules st) \<longleftrightarrow> r \<in> set st)
   \<and> length (getAllRules st) = length st"
proof -
  have active: "r \<in> set (getActiveRules now st) \<longleftrightarrow> r \<in> set st \<and> now < expires_at r"
    by (auto simp: getActiveRules_def index_scan_expires_after_def set_order_by_created_desc)
  have "findMatchingRule now st d sub p keys \<noteq> Some r" if "expires_at r \<le> now"
  proof
    assume "findMatchingRule now st d sub p keys = Some r"
    from findMatchingRule_Some_best [OF this] that show False by simp
  qed
  moreover have "r \<in> set (getAllRules st) \<longleftrightarrow> r \<in> set st"
    by (simp add: getAllRules_def set_order_by_created_desc)
  moreover have "length (getAllRules st) = length st"
    by (simp add: getAllRules_def order_by_created_desc_def)
  ultimately show ?thesis using active by auto
qed

theorem expiry_governs_visibility_witness:
  "expires_at rule_expired \<le> 500
   \<and> rule_expired \<notin> set (getActiveRules 500 [rule_expired, rule_wildcard])
   \<and> findMatchingRule 500 [rule_expired, rule_wildcard] ''example.com''
        (Str ''old'') (Str ''/test'') [] \<noteq> Some rule_expired
   \<and> rule_expired \<in> set (getAllRules [rule_expired, rule_wildcard])
   \<and> rule_wildcard \<in> set (getActiveRules 500 [rule_expired, rule_wildcard])
   \<and> findMatchingRule 499 [rule_expired, rule_wildcard] ''example.com''
        (Str ''old'') (Str ''/test'') [] = Some rule_expired"
proof -
  have e: "expires_at rule_expired \<le> 500" by (simp add: rule_expired_def mk_rule_def)
  have w: "500 < expires_at rule_wildcard" by (simp add: rule_wildcard_def mk_rule_def)
  have f: "findMatchingRule 499 [rule_expired, rule_wildcard] ''example.com''
        (Str ''old'') (Str ''/test'') [] = Some rule_expired"
    by (simp add: rule_expired_def rule_wildcard_def mk_rule_def id_defs match_defs)
  show ?thesis
    using e w f
      expiry_governs_visibility [where r = rule_expired and now = 500
        and st = "[rule_expired, rule_wildcard]" and d = "''example.com''"
        and sub = "Str ''old''" and p = "Str ''/test''" and keys = "[]"]
      expiry_governs_visibility [where r = rule_wildcard and now = 500
        and st = "[rule_expired, rule_wildcard]" and d = "''example.com''"
        and sub = "Str ''old''" and p = "Str ''/test''" and keys = "[]"]
    by simp
qed

text \<open>
  C6. \<open>pruneExpiredRules\<close> at \<open>now\<close> keeps exactly the rows with
  \<open>now < expires_at\<close>, unchanged and in their order, removes the rows with
  \<open>expires_at \<le> now\<close> and returns how many it removed. Pruning the result again,
  at the same time or at any time at which none of the remaining rules has expired,
  removes nothing and returns 0.
\<close>

theorem prune_removes_exactly_expired:
  assumes "pruneExpiredRules now st = (n, st')"
  shows "st' = filter (\<lambda>r. now < expires_at r) st
         \<and> (\<forall>r. r \<in> set st' \<longleftrightarrow> r \<in> set st \<and> \<not> expires_at r \<le> now)
         \<and> n = length (filter (\<lambda>r. expires_at r \<le> now) st)
         \<and> n + length st' = length st
         \<and> pruneExpiredRules now st' = (0, st')
         \<and> (\<forall>now'. (\<forall>r\<in>set st'. now' < expires_at r)
               \<longrightarrow> pruneExpiredRules now' st' = (0, st'))"
proof -
  have st': "st' = filter (\<lambda>r. now < expires_at r) st"
    and n: "n = length (filter (\<lambda>r. expires_at r \<le> now) st)"
    using assms by (auto simp: pruneExpiredRules_def delete_where_def not_le)
  have mem: "\<forall>r. r \<in> set st' \<longleftrightarrow> r \<in> set st \<and> \<not> expires_at r \<le> now"
    using st' by auto
  have count: "n + length st' = length st"
    unfolding st' n
    using sum_length_filter_compl [of "\<lambda>r. expires_at r \<le> now" st]
    by (simp add: not_le)
  have again: "pruneExpiredRules now' st' = (0, st')" if "\<forall>r\<in>set st'. now' < expires_at r"
    for now'
  proof -
    have "filter (\<lambda>r. expires_at r \<le> now') st' = []"
      using that by (auto simp: filter_empty_conv)
    moreover have "filter (\<lambda>r. \<not> expires_at r \<le> now') st' = st'"
      using that by (auto simp: filter_id_conv)
    ultimately show ?thesis by (simp add: pruneExpiredRules_def delete_where_def)
  qed
  have "\<forall>r\<in>set st'. now < expires_at r" using st' by simp
  then have "pruneExpiredRules now st' = (0, st')" by (rule again)
  then show ?thesis using st' mem n count again by blast
qed

theorem prune_removes_exactly_expired_witness:
  "pruneExpiredRules 500 [rule_expired, rule_wildcard] = (1, [rule_wildcard])
   \<and> pruneExpiredRules 500 [rule_wildcard] = (0, [rule_wildcard])
   \<and> [rule_wildcard] = filter (\<lambda>r. 500 < expires_at r) [rule_expired, rule_wildcard]"
proof -
  have p: "pruneExpiredRules 500 [rule_expired, rule_wildcard] = (1, [rule_wildcard])"
    by (simp add: pruneExpiredRules_def delete_where_def rule_expired_def rule_wildcard_def
          mk_rule_def)
  from prune_removes_exactly_expired [OF p] p show ?thesis by simp
qed

section \<open>Creating and updating rules\<close>

text \<open>
  C7. On a store that already holds a rule with the id the arguments encode to,
  \<open>createRule\<close> fails and leaves the store unchanged, but not with the duplicate
  error: the driver reports the violated primary key as
  \<open>SQLITE_CONSTRAINT_PRIMARYKEY\<close>, the \<open>catch\<close> block compares the code with
  \<open>SQLITE_CONSTRAINT\<close>, and so the driver's error is rethrown. "Rule with this ID
  already exists" results only for the code \<open>SQLITE_CONSTRAINT\<close>.
\<close>

theorem createRule_duplicate_error_code_missed:
  assumes "truthy d"
      and "existing \<in> set st"
      and "rule_id existing = generateRuleId d (js_of sub) (js_of p) q"
  shows "createRule driver_primary_key_code now d sub p q url expires st
           = (Inl (StoreFailure ''SQLITE_CONSTRAINT_PRIMARYKEY''), st)
         \<and> createRule ''SQLITE_CONSTRAINT'' now d sub p q url expires st = (Inl RuleExists, st)
         \<and> createRule code now d sub p q url expires st
             = (Inl (if code = ''SQLITE_CONSTRAINT'' then RuleExists else StoreFailure code), st)"
proof -
  have "generateRuleId d (js_of sub) (js_of p) q \<in> rule_id ` set st"
    using assms(2,3) by force
  then show ?thesis using assms(1) by (simp add: createRule_def driver_primary_key_code_def)
qed

theorem createRule_duplicate_error_code_missed_witness:
  "truthy (Str ''example.com'') \<and> rule_users \<in> set [rule_users, rule_wildcard]
   \<and> rule_id rule_users
        = generateRuleId (Str ''example.com'') (js_of (Some ''api'')) (js_of (Some ''/users''))
            (Some [''id'', ''page''])
   \<and> createRule driver_primary_key_code 150 (Str ''example.com'') (Some ''api'')
        (Some ''/users'') (Some [''id'', ''page'']) ''http://other:9000'' 5000
        [rule_users, rule_wildcard]
        = (Inl (StoreFailure ''SQLITE_CONSTRAINT_PRIMARYKEY''), [rule_users, rule_wildcard])
   \<and> createRule ''SQLITE_CONSTRAINT'' 150 (Str ''example.com'') (Some ''api'') (Some ''/users'')
        (Some [''id'', ''page'']) ''http://other:9000'' 5000 [rule_users, rule_wildcard]
        = (Inl RuleExists, [rule_users, rule_wildcard])"
proof -
  have t: "truthy (Str ''example.com'')" by simp
  have m: "rule_users \<in> set [rule_users, rule_wildcard]" by simp
  have i: "rule_id rule_users
        = generateRuleId (Str ''example.com'') (js_of (Some ''api'')) (js_of (Some ''/users''))
            (Some [''id'', ''page''])"
    by (simp add: rule_users_def mk_rule_def)
  show ?thesis
    using t m i
      createRule_duplicate_error_code_missed [OF t m i, of 150 "''http://other:9000''" 5000
        "''SQLITE_CONSTRAINT''"]
    by simp
qed

text \<open>
  C8. \<open>createRule\<close> with an empty or missing (\<open>null\<close>, \<open>undefined\<close>)
  domain fails with "Domain is mandatory" and leaves the store unchanged.
  \<open>generateRuleId\<close> itself checks nothing: for the empty domain it returns the id
  made of the subdomain label, a dot, the path part and the query part.
\<close>

theorem createRule_requires_domain:
  "(\<not> truthy d \<longrightarrow> createRule code now d sub p q url expires st = (Inl DomainMandatory, st))
   \<and> generateRuleId (Str []) s p' q
       = (if s = Null \<or> s = Undefined \<or> s = Str [] then ''!'' else template s) @ ''.''
           @ path_part p' @ query_part q"
  by (simp add: createRule_def generateRuleId_def subdomain_part_def)

theorem createRule_requires_domain_witness:
  "\<not> truthy (Str []) \<and> \<not> truthy Null \<and> \<not> truthy Undefined
   \<and> createRule ''SQLITE_CONSTRAINT'' 150 (Str []) (Some ''api'') (Some ''/test'') None
        ''http://test:8080'' 5000 [rule_wildcard] = (Inl DomainMandatory, [rule_wildcard])
   \<and> createRule ''SQLITE_CONSTRAINT'' 150 Null (Some ''api'') (Some ''/test'') None
        ''http://test:8080'' 5000 [rule_wildcard] = (Inl DomainMandatory, [rule_wildcard])
   \<and> createRule ''SQLITE_CONSTRAINT'' 150 Undefined (Some ''api'') (Some ''/test'') None
        ''http://test:8080'' 5000 [rule_wildcard] = (Inl DomainMandatory, [rule_wildcard])
   \<and> generateRuleId (Str []) (Str ''api'') (Str ''/test'') None = ''api./test''"
  using createRule_requires_domain [where d = "Str []" and s = "Str ''api''" and p' = "Str ''/test''"
          and q = None and code = "''SQLITE_CONSTRAINT''" and now = 150 and sub = "Some ''api''"
          and p = "Some ''/test''" and url = "''http://test:8080''" and expires = 5000
          and st = "[rule_wildcard]"]
        createRule_requires_domain [where d = Null and s = "Str ''api''" and p' = "Str ''/test''"
          and q = None and code = "''SQLITE_CONSTRAINT''" and now = 150 and sub = "Some ''api''"
          and p = "Some ''/test''" and url = "''http://test:8080''" and expires = 5000
          and st = "[rule_wildcard]"]
        createRule_requires_domain [where d = Undefined and s = "Str ''api''" and p' = "Str ''/test''"
          and q = None and code = "''SQLITE_CONSTRAINT''" and now = 150 and sub = "Some ''api''"
          and p = "Some ''/test''" and url = "''http://test:8080''" and expires = 5000
          and st = "[rule_wildcard]"]
  by (simp add: path_part_def query_part_def startsWith_def)

text \<open>
  \<open>generateRuleId\<close> returns an id for the empty domain.
\<close>

theorem generateRuleId_empty_domain_counterexample:
  "generateRuleId (Str '''') Null Null None = ''!./!''"
  by (simp add: id_defs)

text \<open>
  C9. A successful \<open>updateRule\<close> keeps the number and order of the rows; in every
  row the id, domain, subdomain, path, query parameters and creation time are what
  they were, and a row with another id is unchanged altogether. So only
  \<open>downstream_url\<close>, \<open>expires_at\<close> and \<open>updated_at\<close> of the rule with the given id
  can differ.
\<close>

theorem updateRule_changes_only_mutable_fields:
  assumes "updateRule now ruleId updates st = (Inr res, st')"
  shows "length st' = length st
     \<and> (\<forall>i<length st.
           rule_id (st' ! i) = rule_id (st ! i)
           \<and> domain (st' ! i) = domain (st ! i)
           \<and> subdomain (st' ! i) = subdomain (st ! i)
           \<and> path (st' ! i) = path (st ! i)
           \<and> query_params (st' ! i) = query_params (st ! i)
           \<and> created_at (st' ! i) = created_at (st ! i)
           \<and> (rule_id (st ! i) \<noteq> ruleId \<longrightarrow> st' ! i = st ! i))"
proof -
  let ?cs = "filter allowed_entry updates"
  let ?g = "\<lambda>r. if rule_id r = ruleId
                 then (fold set_clause ?cs r)\<lparr>updated_at := now\<rparr> else r"
  have st': "st' = map ?g st"
    using assms by (auto simp: updateRule_def Let_def split: if_splits)
  have frame: "rule_id (?g r) = rule_id r \<and> domain (?g r) = domain r
      \<and> subdomain (?g r) = subdomain r \<and> path (?g r) = path r
      \<and> query_params (?g r) = query_params r \<and> created_at (?g r) = created_at r
      \<and> (rule_id r \<noteq> ruleId \<longrightarrow> ?g r = r)" for r
    using fold_set_clause_frame [of ?cs r] by simp
  show ?thesis
  proof (intro conjI allI impI)
    show "length st' = length st" using st' by simp
  next
    fix i assume "i < length st"
    then have nth: "st' ! i = ?g (st ! i)" using st' by simp
    show "rule_id (st' ! i) = rule_id (st ! i)" unfolding nth using frame by blast
    show "domain (st' ! i) = domain (st ! i)" unfolding nth using frame by blast
    show "subdomain (st' ! i) = subdomain (st ! i)" unfolding nth using frame by blast
    show "path (st' ! i) = path (st ! i)" unfolding nth using frame by blast
    show "query_params (st' ! i) = query_params (st ! i)" unfolding nth using frame by blast
    show "created_at (st' ! i) = created_at (st ! i)" unfolding nth using frame by blast
    show "st' ! i = st ! i" if "rule_id (st ! i) \<noteq> ruleId" unfolding nth using that by simp
  qed
qed

theorem updateRule_changes_only_mutable_fields_witness:
  "updateRule 700 ''*.example.com/*'' [DownstreamUrl ''http://new:1'', OtherField ''domain'']
       [rule_users, rule_wildcard]
     = (Inr (Some (rule_wildcard\<lparr>downstream_url := ''http://new:1'', updated_at := 700\<rparr>)),
        [rule_users, rule_wildcard\<lparr>downstream_url := ''http://new:1'', updated_at := 700\<rparr>])
   \<and> length [rule_users, rule_wildcard\<lparr>downstream_url := ''http://new:1'', updated_at := 700\<rparr>]
       = length [rule_users, rule_wildcard]
   \<and> domain (rule_wildcard\<lparr>downstream_url := ''http://new:1'', updated_at := 700\<rparr>)
       = domain rule_wildcard
   \<and> rule_id rule_users \<noteq> ''*.example.com/*''"
proof -
  have u: "updateRule 700 ''*.example.com/*'' [DownstreamUrl ''http://new:1'', OtherField ''domain'']
       [rule_users, rule_wildcard]
     = (Inr (Some (rule_wildcard\<lparr>downstream_url := ''http://new:1'', updated_at := 700\<rparr>)),
        [rule_users, rule_wildcard\<lparr>downstream_url := ''http://new:1'', updated_at := 700\<rparr>])"
    by (simp add: updateRule_def getRule_def rule_users_def rule_wildcard_def mk_rule_def id_defs)
  have i: "rule_id rule_users \<noteq> ''*.example.com/*''"
    by (simp add: rule_users_def mk_rule_def id_defs)
  from updateRule_changes_only_mutable_fields [OF u] u i show ?thesis by simp
qed

section \<open>Rule ids and selectors\<close>

text \<open>
  C2. \<open>generateRuleId\<close> is a function of its arguments, and
  \<open>("example.com", "api", "/users", ["id", "page"])\<close> gives
  \<open>api.example.com/users/[id,page]\<close>. For every fixed domain it is injective on
  canonical selector tuples: when subdomains have no \<open>/\<close>, exact paths start with
  \<open>/\<close>, have no \<open>[\<close> and are not \<open>/*\<close> or \<open>/!\<close>, and query keys have no comma and
  are not the single empty key, equal ids come only from equal subdomain selectors,
  equal path selectors and equal query parameter lists.
\<close>

theorem generateRuleId_injective_on_canonical:
  "generateRuleId (Str ''example.com'') (Str ''api'') (Str ''/users'') (Some [''id'', ''page''])
     = ''api.example.com/users/[id,page]''
   \<and> (canonical_subdomain sub \<and> canonical_subdomain sub'
        \<and> canonical_path p \<and> canonical_path p'
        \<and> canonical_query q \<and> canonical_query q'
        \<and> generateRuleId d sub p q = generateRuleId d sub' p' q'
      \<longrightarrow> selector_of sub = selector_of sub' \<and> selector_of p = selector_of p' \<and> q = q')"
proof (rule conjI, goal_cases)
  case 1
  show ?case by (simp add: id_defs)
next
  case 2
  show ?case
  proof (rule impI)
    assume h: "canonical_subdomain sub \<and> canonical_subdomain sub'
          \<and> canonical_path p \<and> canonical_path p'
          \<and> canonical_query q \<and> canonical_query q'
          \<and> generateRuleId d sub p q = generateRuleId d sub' p' q'"
    have eq: "sub_label sub @ CHR ''.'' # template d
                @ CHR ''/'' # (tl (path_part p) @ query_part q)
            = sub_label sub' @ CHR ''.'' # template d
                @ CHR ''/'' # (tl (path_part p') @ query_part q')"
    proof -
      have "sub_label sub @ CHR ''.'' # template d @ path_part p @ query_part q
          = sub_label sub' @ CHR ''.'' # template d @ path_part p' @ query_part q'"
        using h by (simp add: generateRuleId_def subdomain_part_label)
      then show ?thesis
        using path_part_slash [of p] path_part_slash [of p']
        by (metis append_Cons)
    qed
    have "CHR ''/'' \<notin> set (sub_label sub)" "CHR ''/'' \<notin> set (sub_label sub')"
      using h sub_label_no_slash by simp_all
    from label_before_first_slash [OF this eq]
    have ab: "sub_label sub = sub_label sub'"
      and rest: "tl (path_part p) @ query_part q = tl (path_part p') @ query_part q'"
      by simp_all
    from ab have s: "selector_of sub = selector_of sub'" by (rule sub_label_inj)
    have "path_part p @ query_part q = path_part p' @ query_part q'"
      using rest path_part_slash [of p] path_part_slash [of p'] by (metis append_Cons)
    then have "path_part p = path_part p' \<and> q = q'"
      using path_query_inj h by blast
    then have "selector_of p = selector_of p' \<and> q = q'"
      using path_part_inj [of p p'] h by blast
    with s show "selector_of sub = selector_of sub' \<and> selector_of p = selector_of p' \<and> q = q'"
      by simp
  qed
qed

theorem generateRuleId_injective_on_canonical_witness:
  "canonical_subdomain Null \<and> canonical_subdomain (Str ''!'')
   \<and> canonical_path (Str ''/users'') \<and> canonical_path (Str ''/users'')
   \<and> canonical_query (Some [''id'', ''page''])
   \<and> generateRuleId (Str ''a/b.com'') Null (Str ''/users'') (Some [''id'', ''page''])
       = generateRuleId (Str ''a/b.com'') (Str ''!'') (Str ''/users'') (Some [''id'', ''page''])
   \<and> selector_of Null = selector_of (Str ''!'')
   \<and> generateRuleId (Str ''example.com'') (Str ''api'') (Str ''/users'') (Some [''id'', ''page''])
       = ''api.example.com/users/[id,page]''"
proof -
  have 2: "canonical_subdomain Null \<and> canonical_subdomain (Str ''!'')"
    by (simp add: canonical_subdomain_def)
  have 3: "canonical_path (Str ''/users'')"
    by (simp add: canonical_path_def selector_of_def startsWith_def)
  have 4: "canonical_query (Some [''id'', ''page''])" by (simp add: canonical_query_def)
  have 5: "generateRuleId (Str ''a/b.com'') Null (Str ''/users'') (Some [''id'', ''page''])
       = generateRuleId (Str ''a/b.com'') (Str ''!'') (Str ''/users'') (Some [''id'', ''page''])"
    by (simp add: id_defs)
  show ?thesis
    using 2 3 4 5
      generateRuleId_injective_on_canonical [where d = "Str ''a/b.com''" and sub = Null
        and sub' = "Str ''!''" and p = "Str ''/users''" and p' = "Str ''/users''"
        and q = "Some [''id'', ''page'']" and q' = "Some [''id'', ''page'']"]
    by simp
qed

text \<open>
  Pairs of different selector tuples with the same id, one for each restriction: an
  exact path without the leading \<open>/\<close>; a subdomain with \<open>/\<close>; an exact path with
  \<open>[\<close>; the exact paths \<open>/*\<close> and \<open>/!\<close>; the single empty query key; a query key
  with a comma.
\<close>

theorem generateRuleId_collision_counterexample:
  "generateRuleId (Str ''example.com'') (Str ''api'') (Str ''users'') None
     = generateRuleId (Str ''example.com'') (Str ''api'') (Str ''/users'') None
   \<and> selector_of (Str ''users'') \<noteq> selector_of (Str ''/users'')
   \<and> generateRuleId (Str ''example.com'') (Str ''a.example.com/b'') (Str ''/c'') None
     = generateRuleId (Str ''example.com'') (Str ''a'') (Str ''/b.example.com/c'') None
   \<and> selector_of (Str ''a.example.com/b'') \<noteq> selector_of (Str ''a'')
   \<and> generateRuleId (Str ''example.com'') (Str ''api'') (Str ''/x/[a]'') None
     = generateRuleId (Str ''example.com'') (Str ''api'') (Str ''/x'') (Some [''a''])
   \<and> selector_of (Str ''/x/[a]'') \<noteq> selector_of (Str ''/x'')
   \<and> generateRuleId (Str ''example.com'') (Str ''api'') (Str ''/*'') None
     = generateRuleId (Str ''example.com'') (Str ''api'') (Str ''*'') None
   \<and> selector_of (Str ''/*'') \<noteq> selector_of (Str ''*'')
   \<and> generateRuleId (Str ''example.com'') (Str ''api'') (Str ''/!'') None
     = generateRuleId (Str ''example.com'') (Str ''api'') Null None
   \<and> selector_of (Str ''/!'') \<noteq> selector_of Null
   \<and> generateRuleId (Str ''example.com'') (Str ''api'') (Str ''/x'') (Some [[]])
     = generateRuleId (Str ''example.com'') (Str ''api'') (Str ''/x'') (Some [])
   \<and> Some [[]] \<noteq> (Some [] :: string list option)
   \<and> generateRuleId (Str ''example.com'') (Str ''api'') (Str ''/x'') (Some [''a,b''])
     = generateRuleId (Str ''example.com'') (Str ''api'') (Str ''/x'') (Some [''a'', ''b''])
   \<and> Some [''a,b''] \<noteq> Some [''a'', ''b'']"
  by (simp add: id_defs selector_of_def)

section \<open>The subdomain values that mean "no subdomain"\<close>

text \<open>
  C10. The subdomain values \<open>null\<close>, \<open>undefined\<close>, the empty string and \<open>!\<close> give the
  same rule id, which starts with \<open>!.\<close>, for every domain, path and query parameter
  list. A stored subdomain that is \<open>null\<close>, empty or \<open>!\<close> is checked the same way:
  the rule is skipped when the request subdomain is a non-empty string and scores 10
  on the subdomain otherwise, so it is returned only for requests without a subdomain.
  The stored row keeps the subdomain value it was created with.
\<close>

theorem no_subdomain_forms_same_id_same_match:
  "generateRuleId d Null p q = ''!.'' @ template d @ path_part p @ query_part q
   \<and> generateRuleId d Undefined p q = generateRuleId d Null p q
   \<and> generateRuleId d (Str []) p q = generateRuleId d Null p q
   \<and> generateRuleId d (Str ''!'') p q = generateRuleId d Null p q
   \<and> (c = None \<or> c = Some [] \<or> c = Some ''!'' \<longrightarrow>
        check_subdomain c sub = (if truthy sub then None else Some 10)
        \<and> rule_score (r\<lparr>subdomain := c\<rparr>) sub p' keys
            = (if truthy sub then None
               else sum_scores (Some 10) (check_path (path r) p')
                      (check_query_params (query_params r) keys))
        \<and> (subdomain r = c \<and> findMatchingRule now st dm sub p' keys = Some r
              \<longrightarrow> \<not> truthy sub))
   \<and> (truthy d \<and> generateRuleId d (js_of s) (js_of pp) q \<notin> rule_id ` set tbl \<longrightarrow>
        (\<exists>row. createRule code now d s pp q url expires tbl = (Inr (Some row), tbl @ [row])
               \<and> rule_id row = generateRuleId d (js_of s) (js_of pp) q
               \<and> subdomain row = s))"
proof -
  have ids: "generateRuleId d Null p q = ''!.'' @ template d @ path_part p @ query_part q
     \<and> generateRuleId d Undefined p q = generateRuleId d Null p q
     \<and> generateRuleId d (Str []) p q = generateRuleId d Null p q
     \<and> generateRuleId d (Str ''!'') p q = generateRuleId d Null p q"
    by (simp add: generateRuleId_def subdomain_part_def)
  have stored: "check_subdomain c sub = (if truthy sub then None else Some 10)
        \<and> rule_score (r\<lparr>subdomain := c\<rparr>) sub p' keys
            = (if truthy sub then None
               else sum_scores (Some 10) (check_path (path r) p')
                      (check_query_params (query_params r) keys))
        \<and> (subdomain r = c \<and> findMatchingRule now st dm sub p' keys = Some r
              \<longrightarrow> \<not> truthy sub)"
    if c: "c = None \<or> c = Some [] \<or> c = Some ''!''"
  proof -
    note chk = stored_none_forms_check [OF c, of sub]
    have sc: "rule_score (r\<lparr>subdomain := c\<rparr>) sub p' keys
            = (if truthy sub then None
               else sum_scores (Some 10) (check_path (path r) p')
                      (check_query_params (query_params r) keys))"
      by (simp add: rule_score_sum chk)
    have "\<not> truthy sub"
      if "subdomain r = c" and found: "findMatchingRule now st dm sub p' keys = Some r"
    proof
      assume "truthy sub"
      then have "rule_score r sub p' keys = None"
        using chk \<open>subdomain r = c\<close> by (simp add: rule_score_sum)
      then show False using findMatchingRule_Some_best [OF found] by auto
    qed
    then show ?thesis using chk sc by blast
  qed
  have created: "\<exists>row. createRule code now d s pp q url expires tbl = (Inr (Some row), tbl @ [row])
               \<and> rule_id row = generateRuleId d (js_of s) (js_of pp) q
               \<and> subdomain row = s"
    if "truthy d \<and> generateRuleId d (js_of s) (js_of pp) q \<notin> rule_id ` set tbl"
  proof -
    let ?id = "generateRuleId d (js_of s) (js_of pp) q"
    let ?row = "\<lparr> rule_id = ?id, domain = template d, subdomain = s, path = pp,
                  query_params = q, downstream_url = url, expires_at = expires,
                  created_at = now, updated_at = now \<rparr>"
    have "getRule ?id (tbl @ [?row]) = Some ?row"
      using that by (intro getRule_appended) simp_all
    then have "createRule code now d s pp q url expires tbl = (Inr (Some ?row), tbl @ [?row])"
      using that by (simp add: createRule_def Let_def)
    then show ?thesis by (intro exI [of _ ?row]) simp
  qed
  show ?thesis using ids stored created by blast
qed

theorem no_subdomain_forms_same_id_same_match_witness:
  "generateRuleId (Str ''example.com'') (Str ''!'') (Str ''/home'') None = ''!.example.com/home''
   \<and> generateRuleId (Str ''example.com'') Null (Str ''/home'') None = ''!.example.com/home''
   \<and> check_subdomain (Some ''!'') Null = Some 10
   \<and> check_subdomain (Some ''!'') (Str ''api'') = None
   \<and> rule_score rule_bang_home Null (Str ''/home'') [] = Some 25
   \<and> rule_score rule_bare_home Null (Str ''/home'') [] = Some 25
   \<and> findMatchingRule 1000 [rule_bang_home] ''example.com'' Null (Str ''/home'') []
       = Some rule_bang_home
   \<and> findMatchingRule 1000 [rule_bang_home] ''example.com'' (Str ''api'') (Str ''/home'') []
       = None
   \<and> \<not> truthy Null
   \<and> createRule ''SQLITE_CONSTRAINT'' 100 (Str ''example.com'') (Some ''!'') (Some ''/home'')
        None ''http://backend:8080'' 3000 [rule_wildcard]
       = (Inr (Some rule_bang_home), [rule_wildcard, rule_bang_home])"
proof -
  have f: "findMatchingRule 1000 [rule_bang_home] ''example.com'' Null (Str ''/home'') []
       = Some rule_bang_home"
    by (simp add: rule_bang_home_def mk_rule_def id_defs match_defs)
  have g: "findMatchingRule 1000 [rule_bang_home] ''example.com'' (Str ''api'') (Str ''/home'') []
       = None"
    by (simp add: rule_bang_home_def mk_rule_def id_defs match_defs)
  have s: "subdomain rule_bang_home = Some ''!''" by (simp add: rule_bang_home_def mk_rule_def)
  have t: "truthy (Str ''example.com'')
      \<and> generateRuleId (Str ''example.com'') (js_of (Some ''!'')) (js_of (Some ''/home'')) None
          \<notin> rule_id ` set [rule_wildcard]"
    by (simp add: rule_wildcard_def mk_rule_def id_defs)
  have b: "rule_bang_home = rule_bare_home\<lparr>subdomain := Some ''!''\<rparr>"
    by (simp add: rule_bang_home_def rule_bare_home_def mk_rule_def id_defs)
  show ?thesis
    using f g s t b
      no_subdomain_forms_same_id_same_match [where d = "Str ''example.com''"
        and p = "Str ''/home''" and q = None and c = "Some ''!''" and sub = Null
        and r = rule_bang_home and p' = "Str ''/home''" and keys = "[]" and now = 1000
        and st = "[rule_bang_home]" and tbl = "[rule_wildcard]" and dm = "''example.com''" and s = "Some ''!''"
        and pp = "Some ''/home''" and code = "''SQLITE_CONSTRAINT''" and url = "''http://backend:8080''"
        and expires = 3000]
    by (simp add: rule_bang_home_def rule_bare_home_def rule_wildcard_def mk_rule_def id_defs
          match_defs getRule_def createRule_def Let_def)
qed

text \<open>
  Creating with \<open>!\<close> and with \<open>null\<close> returns rows with the same id and different
  subdomain values; and as a request subdomain \<open>!\<close> is a subdomain: a rule stored
  without a subdomain is returned for the request subdomain \<open>null\<close> and not for \<open>!\<close>.
\<close>

theorem no_subdomain_forms_distinguishable_counterexample:
  "fst (createRule ''SQLITE_CONSTRAINT'' 100 (Str ''example.com'') (Some ''!'') (Some ''/home'')
          None ''http://backend:8080'' 3000 []) = Inr (Some rule_bang_home)
   \<and> fst (createRule ''SQLITE_CONSTRAINT'' 100 (Str ''example.com'') None (Some ''/home'')
          None ''http://backend:8080'' 3000 []) = Inr (Some rule_bare_home)
   \<and> rule_id rule_bang_home = rule_id rule_bare_home
   \<and> subdomain rule_bang_home \<noteq> subdomain rule_bare_home
   \<and> findMatchingRule 1000 [rule_bare_home] ''example.com'' Null (Str ''/home'') []
       = Some rule_bare_home
   \<and> findMatchingRule 1000 [rule_bare_home] ''example.com'' (Str ''!'') (Str ''/home'') []
       = None"
  by (simp add: rule_bang_home_def rule_bare_home_def mk_rule_def id_defs match_defs
        getRule_def createRule_def Let_def)

end
